theory Spec2Isabelle
  imports Main "HOL-Library.Word" "HOL-Library.Signed_Division"
begin

section \<open>Values shared by the scheduler and the lock\<close>

subsection \<open>Durations\<close>

text \<open>
  Go's \<^verbatim>\<open>time.Duration\<close> is an \<^verbatim>\<open>int64\<close> count of nanoseconds: \<open>+\<close> wraps around,
  comparisons are signed (\<open><s\<close>), and \<^verbatim>\<open>/\<close> truncates towards zero.
\<close>

type_synonym Duration = "64 word"

definition Second :: Duration where
  "Second = 1000000000"

definition duration_div :: "Duration \<Rightarrow> Duration \<Rightarrow> Duration" where
  \<comment> \<open>\<^verbatim>\<open>a / b\<close> on \<^verbatim>\<open>int64\<close>, for a divisor that is not zero\<close>
  "duration_div a b = word_of_int (sint a sdiv sint b)"

subsection \<open>Errors\<close>

text \<open>
  Modelled from the spec: the sentinel \<^verbatim>\<open>ErrLocked\<close>, whose declaration is not among the
  sources; the spec calls it the distinguished "already locked" signal, a value compared by
  identity. It is the constructor \<open>ErrLocked\<close> below. The other constructors are the error
  values the sources build: \<^verbatim>\<open>errors.New(msg)\<close> and \<^verbatim>\<open>fmt.Errorf("msg: %w", err)\<close>.
\<close>

datatype error =
    ErrLocked
  | ErrNew string
  | ErrWrap string error

fun errors_Is :: "error \<Rightarrow> error \<Rightarrow> bool" where
  \<comment> \<open>\<^verbatim>\<open>errors.Is(err, target)\<close>: walks the chain of wrapped errors\<close>
  "errors_Is (ErrWrap msg inner) target =
     (ErrWrap msg inner = target \<or> errors_Is inner target)"
| "errors_Is err target = (err = target)"

subsection \<open>Calls of user functions\<close>

text \<open>
  A call of a Go function value of type \<^verbatim>\<open>func(...) error\<close> either returns an error
  (\<open>None\<close> is \<^verbatim>\<open>nil\<close>) or panics; the panic value is kept as its \<^verbatim>\<open>%v\<close> rendering.
\<close>

datatype outcome = Returns "error option" | Panics string

text \<open>
  A \<^verbatim>\<open>context.Context\<close> as the scheduler builds it: whether \<^verbatim>\<open>trace.Set\<close> was applied, and
  the duration handed to \<^verbatim>\<open>context.WithTimeout\<close> (\<open>None\<close>: no deadline).
\<close>

record ctx =
  ctx_traced :: bool
  ctx_timeout :: "Duration option"

definition Background :: ctx where
  "Background = \<lparr>ctx_traced = False, ctx_timeout = None\<rparr>"

definition WithTimeout :: "ctx \<Rightarrow> Duration \<Rightarrow> ctx" where
  "WithTimeout c d = c\<lparr>ctx_timeout := Some d\<rparr>"

text \<open>
  A channel of \<^verbatim>\<open>struct{}\<close> with capacity 1 is the number of values it buffers. A send
  succeeds when there is room; otherwise the sender blocks (\<open>None\<close>).
\<close>

definition chan_send :: "nat \<Rightarrow> nat option" where
  "chan_send n = (if n < 1 then Some (Suc n) else None)"

text \<open>What the scheduler does that can be observed from outside.\<close>

datatype event =
    BeforeCall nat outcome
  | ActionCall ctx outcome
  | AfterCall nat outcome
  | Logged string error
  | HandlerCall error bool

text \<open>A goroutine either goes on with a value or is blocked for good on a channel send.\<close>

datatype 'a exec = Goes 'a | Blocked

section \<open>The scheduler with a stop callback\<close>

text \<open>
  The second \<^verbatim>\<open>Worker\<close> of the sources: its action receives a \<^verbatim>\<open>stop\<close> callback, and it
  has no middlewares. Its fields carry the suffix 2. The action is modelled by the number
  of times it calls \<^verbatim>\<open>stop\<close>, how it ends, and the state it leaves.
\<close>

subsection \<open>The recovery boundary \<^verbatim>\<open>try\<close>\<close>

definition recover :: "outcome \<Rightarrow> string option" where
  \<comment> \<open>\<^verbatim>\<open>recover()\<close> in the deferred function: the panic value, \<^verbatim>\<open>nil\<close> when not panicking\<close>
  "recover out = (case out of Panics p \<Rightarrow> Some p | Returns r \<Rightarrow> None)"

definition Sprintf_v :: "string option \<Rightarrow> string" where
  \<comment> \<open>\<^verbatim>\<open>fmt.Sprintf("%v", x)\<close>\<close>
  "Sprintf_v x = (case x of None \<Rightarrow> ''<nil>'' | Some p \<Rightarrow> p)"

definition try_fn :: "outcome \<Rightarrow> error option" where
  \<comment> \<open>\<^verbatim>\<open>try(ctx, fn)\<close>, given how \<^verbatim>\<open>fn(ctx)\<close> ended: the named result \<^verbatim>\<open>err\<close> is what
      \<^verbatim>\<open>fn\<close> returned (still \<^verbatim>\<open>nil\<close> after a panic), then the deferred function runs\<close>
  "try_fn out =
     (let err = (case out of Returns r \<Rightarrow> r | Panics p \<Rightarrow> None)
      in if err = None then Some (ErrNew (Sprintf_v (recover out))) else err)"

subsection \<open>\<^verbatim>\<open>runAction\<close> with the stop callback\<close>

record 's action2_result =
  stop_calls :: nat
  ended :: outcome
  left :: 's

record 's Worker2 =
  name2 :: string
  fromStart2 :: bool
  duration2 :: Duration
  action2 :: "ctx \<Rightarrow> 's \<Rightarrow> 's action2_result"
  errorHandler2 :: "(error \<Rightarrow> bool) option"
  timeout2 :: Duration

record 's state =
  world :: 's
  stopper :: nat
  done_chan :: nat
  cancelled :: bool
  tick_pending :: bool
  events :: "event list"

fun send_times :: "nat \<Rightarrow> nat \<Rightarrow> nat option" where
  \<comment> \<open>that many sends in a row on the stopper channel\<close>
  "send_times 0 n = Some n"
| "send_times (Suc k) n = (case chan_send n of None \<Rightarrow> None | Some n' \<Rightarrow> send_times k n')"

definition runAction2_ctx :: "'s Worker2 \<Rightarrow> ctx" where
  "runAction2_ctx w =
     (if 0 <s duration2 w then WithTimeout Background (duration2 w) else Background)"

definition runAction2 :: "'s Worker2 \<Rightarrow> 's state \<Rightarrow> (error option \<times> 's state) exec" where
  "runAction2 w st =
     (let c = runAction2_ctx w;
          r = action2 w c (world st)
      in case send_times (stop_calls r) (stopper st) of
           None \<Rightarrow> Blocked
         | Some n \<Rightarrow>
             Goes (try_fn (ended r),
                   st\<lparr>world := left r, stopper := n,
                      events := events st @ [ActionCall c (ended r)]\<rparr>))"

subsection \<open>Error policy and the select loop\<close>

definition handle_error :: "(error \<Rightarrow> bool) option \<Rightarrow> error option \<Rightarrow> 's state \<Rightarrow> 's state exec" where
  \<comment> \<open>what both \<^verbatim>\<open>Run\<close> methods do with the result of \<^verbatim>\<open>runAction\<close>: a non-nil error
      goes to the handler, if there is one, and a \<^verbatim>\<open>false\<close> answer sends on the stopper\<close>
  "handle_error handler err st =
     (case err of
        None \<Rightarrow> Goes st
      | Some e \<Rightarrow>
          (case handler of
             None \<Rightarrow> Goes st
           | Some h \<Rightarrow>
               (let st1 = st\<lparr>events := events st @ [HandlerCall e (h e)]\<rparr>
                in if \<not> h e
                   then (case chan_send (stopper st1) of
                           None \<Rightarrow> Blocked
                         | Some n \<Rightarrow> Goes (st1\<lparr>stopper := n\<rparr>))
                   else Goes st1)))"

text \<open>
  The goroutine of \<^verbatim>\<open>Run\<close> loops over a \<^verbatim>\<open>select\<close> with three cases. What happens
  around it is a schedule: the external context is cancelled, the ticker delivers a tick
  into its channel (capacity 1), or the \<^verbatim>\<open>select\<close> takes one of its cases. Go chooses among
  the cases that are ready; a case that is not ready cannot be taken, and such a step of
  the schedule is passed over.
\<close>

datatype select_case = CtxDone | StopperRecv | TickerRecv

datatype sched = ExternalCancel | TickerFires | Select select_case

datatype 's ended = Waiting "'s state" | Returned "'s state" | Deadlocked | Crashed

definition send_done :: "'s state \<Rightarrow> 's ended" where
  \<comment> \<open>\<^verbatim>\<open>worker.done <- struct{}{}; return\<close>\<close>
  "send_done st =
     (case chan_send (done_chan st) of
        None \<Rightarrow> Deadlocked
      | Some n \<Rightarrow> Returned (st\<lparr>done_chan := n\<rparr>))"

fun select_loop :: "('s state \<Rightarrow> 's state exec) \<Rightarrow> sched list \<Rightarrow> 's state \<Rightarrow> 's ended" where
  "select_loop tick [] st = Waiting st"
| "select_loop tick (ExternalCancel # xs) st = select_loop tick xs (st\<lparr>cancelled := True\<rparr>)"
| "select_loop tick (TickerFires # xs) st = select_loop tick xs (st\<lparr>tick_pending := True\<rparr>)"
| "select_loop tick (Select CtxDone # xs) st =
     (if cancelled st then send_done st else select_loop tick xs st)"
| "select_loop tick (Select StopperRecv # xs) st =
     (if 0 < stopper st then send_done (st\<lparr>stopper := stopper st - 1\<rparr>)
      else select_loop tick xs st)"
| "select_loop tick (Select TickerRecv # xs) st =
     (if tick_pending st
      then (case tick (st\<lparr>tick_pending := False\<rparr>) of
              Blocked \<Rightarrow> Deadlocked
            | Goes st1 \<Rightarrow> select_loop tick xs st1)
      else select_loop tick xs st)"

definition tick2 :: "'s Worker2 \<Rightarrow> 's state \<Rightarrow> 's state exec" where
  "tick2 w st =
     (case runAction2 w st of
        Blocked \<Rightarrow> Blocked
      | Goes (err, st1) \<Rightarrow> handle_error (errorHandler2 w) err st1)"

definition Run2_loop :: "'s Worker2 \<Rightarrow> sched list \<Rightarrow> 's state \<Rightarrow> 's ended" where
  "Run2_loop w = select_loop (tick2 w)"

definition Run2 :: "'s Worker2 \<Rightarrow> sched list \<Rightarrow> 's state \<Rightarrow> 's ended" where
  \<comment> \<open>the run from start, then the goroutine: \<^verbatim>\<open>time.NewTicker\<close> panics on an interval
      that is not positive; the teardown callback is not modelled\<close>
  "Run2 w xs st =
     (case (if fromStart2 w then tick2 w st else Goes st) of
        Blocked \<Rightarrow> Deadlocked
      | Goes st1 \<Rightarrow> (if 0 <s duration2 w then Run2_loop w xs st1 else Crashed))"

definition fresh :: "'s \<Rightarrow> 's state" where
  \<comment> \<open>the channels as the constructors make them, nothing cancelled or pending yet\<close>
  "fresh s = \<lparr>world = s, stopper = 0, done_chan = 0, cancelled = False,
              tick_pending = False, events = []\<rparr>"

section \<open>The scheduler with middlewares\<close>

type_synonym 's Middleware = "ctx \<Rightarrow> 's \<Rightarrow> outcome \<times> 's"

record 's Worker =
  name :: string
  fromStart :: bool
  duration :: Duration
  action :: "ctx \<Rightarrow> 's \<Rightarrow> outcome \<times> 's"
  errorHandler :: "(error \<Rightarrow> bool) option"
  timeout :: Duration
  amIMaster :: bool
  beforeMiddlewares :: "'s Middleware list"
  afterMiddlewares :: "'s Middleware list"

definition NewWorker :: "string \<Rightarrow> Duration \<Rightarrow> (ctx \<Rightarrow> 's \<Rightarrow> outcome \<times> 's) \<Rightarrow> bool \<Rightarrow> 's Worker" where
  \<comment> \<open>the last argument is what \<^verbatim>\<open>trace.AmIMaster()\<close> answers\<close>
  "NewWorker n d a master =
     \<lparr>name = n, fromStart = False, duration = d, action = a, errorHandler = None,
      timeout = 0, amIMaster = master, beforeMiddlewares = [], afterMiddlewares = []\<rparr>"

definition FromStart :: "bool \<Rightarrow> 's Worker \<Rightarrow> 's Worker" where
  "FromStart b w = w\<lparr>fromStart := b\<rparr>"

definition Timeout :: "Duration \<Rightarrow> 's Worker \<Rightarrow> 's Worker" where
  "Timeout d w = w\<lparr>timeout := d\<rparr>"

definition ErrorHandler :: "(error \<Rightarrow> bool) option \<Rightarrow> 's Worker \<Rightarrow> 's Worker" where
  "ErrorHandler h w = (case h of None \<Rightarrow> w | Some f \<Rightarrow> w\<lparr>errorHandler := Some f\<rparr>)"

definition BeforeMiddlewares :: "'s Middleware list \<Rightarrow> 's Worker \<Rightarrow> 's Worker" where
  "BeforeMiddlewares ms w =
     (if length ms = 0 then w else w\<lparr>beforeMiddlewares := beforeMiddlewares w @ ms\<rparr>)"

definition AfterMiddlewares :: "'s Middleware list \<Rightarrow> 's Worker \<Rightarrow> 's Worker" where
  "AfterMiddlewares ms w =
     (if length ms = 0 then w else w\<lparr>afterMiddlewares := afterMiddlewares w @ ms\<rparr>)"

subsection \<open>One tick: \<^verbatim>\<open>runAction\<close>\<close>

definition runAction_ctx :: "'s Worker \<Rightarrow> ctx" where
  "runAction_ctx w =
     (let c = (if amIMaster w then Background\<lparr>ctx_traced := True\<rparr> else Background)
      in if 0 <s timeout w then WithTimeout c (timeout w + Second) else c)"

text \<open>
  The loop over the before-middlewares, from position \<open>i\<close> with the flag \<open>locked\<close>. It ends
  with the flag (\<open>Inl\<close>), or with the panic of a middleware (\<open>Inr\<close>).
\<close>

fun run_before ::
  "'s Middleware list \<Rightarrow> nat \<Rightarrow> bool \<Rightarrow> ctx \<Rightarrow> 's \<Rightarrow> (bool + string) \<times> 's \<times> event list" where
  "run_before [] i locked c s = (Inl locked, s, [])"
| "run_before (m # ms) i locked c s =
     (if locked then (Inl locked, s, [])
      else (case m c s of
              (Panics p, s1) \<Rightarrow> (Inr p, s1, [BeforeCall i (Panics p)])
            | (Returns None, s1) \<Rightarrow>
                (case run_before ms (Suc i) locked c s1 of
                   (r, s2, evs) \<Rightarrow> (r, s2, BeforeCall i (Returns None) # evs))
            | (Returns (Some err), s1) \<Rightarrow>
                (if errors_Is err ErrLocked
                 then (case run_before ms (Suc i) True c s1 of
                         (r, s2, evs) \<Rightarrow> (r, s2, BeforeCall i (Returns (Some err)) # evs))
                 else (case run_before ms (Suc i) locked c s1 of
                         (r, s2, evs) \<Rightarrow>
                           (r, s2, BeforeCall i (Returns (Some err))
                                   # Logged ''Worker before middleware'' err # evs)))))"

text \<open>
  The loop over the after-middlewares in the deferred function. It ends normally (\<open>None\<close>)
  or with the panic of a middleware.
\<close>

fun run_after ::
  "'s Middleware list \<Rightarrow> nat \<Rightarrow> ctx \<Rightarrow> 's \<Rightarrow> string option \<times> 's \<times> event list" where
  "run_after [] i c s = (None, s, [])"
| "run_after (m # ms) i c s =
     (case m c s of
        (Panics p, s1) \<Rightarrow> (Some p, s1, [AfterCall i (Panics p)])
      | (Returns None, s1) \<Rightarrow>
          (case run_after ms (Suc i) c s1 of
             (r, s2, evs) \<Rightarrow> (r, s2, AfterCall i (Returns None) # evs))
      | (Returns (Some err), s1) \<Rightarrow>
          (case run_after ms (Suc i) c s1 of
             (r, s2, evs) \<Rightarrow>
               (r, s2, AfterCall i (Returns (Some err))
                       # Logged ''Worker after middleware'' err # evs)))"

definition deferred_after ::
  "'s Worker \<Rightarrow> bool \<Rightarrow> ctx \<Rightarrow> outcome \<Rightarrow> 's \<Rightarrow> outcome \<times> 's \<times> event list" where
  \<comment> \<open>the deferred function, run when the function literal ends with \<open>out\<close>: a panic of an
      after-middleware replaces that ending\<close>
  "deferred_after w locked c out s =
     (if locked then (out, s, [])
      else (case run_after (afterMiddlewares w) 0 c s of
              (None, s1, evs) \<Rightarrow> (out, s1, evs)
            | (Some q, s1, evs) \<Rightarrow> (Panics q, s1, evs)))"

definition wrapped_action :: "'s Worker \<Rightarrow> ctx \<Rightarrow> 's \<Rightarrow> outcome \<times> 's \<times> event list" where
  \<comment> \<open>the function literal handed to \<^verbatim>\<open>errorx.TryContext\<close>; the \<^verbatim>\<open>defer\<close> statement comes
      after the loop over the before-middlewares, so a panic in that loop leaves the
      deferred function unregistered\<close>
  "wrapped_action w c s =
     (case run_before (beforeMiddlewares w) 0 False c s of
        (Inr p, s1, evs) \<Rightarrow> (Panics p, s1, evs)
      | (Inl locked, s1, evs) \<Rightarrow>
          (if locked
           then (case deferred_after w locked c (Returns None) s1 of
                   (out, s2, evs2) \<Rightarrow> (out, s2, evs @ evs2))
           else (case action w c s1 of
                   (out, s2) \<Rightarrow>
                     (case deferred_after w locked c out s2 of
                        (out3, s3, evs3) \<Rightarrow> (out3, s3, evs @ ActionCall c out # evs3)))))"

text \<open>
  Modelled from the spec: \<^verbatim>\<open>errorx.TryContext\<close>, the recovery boundary of the errorx module,
  which is not among the sources. The spec: it "converts any panic into an ordinary error
  value"; what the function returns is passed on.
\<close>

definition TryContext :: "outcome \<Rightarrow> error option" where
  "TryContext out = (case out of Returns r \<Rightarrow> r | Panics p \<Rightarrow> Some (ErrNew p))"

definition runAction :: "'s Worker \<Rightarrow> 's state \<Rightarrow> error option \<times> 's state" where
  "runAction w st =
     (let c = runAction_ctx w
      in case wrapped_action w c (world st) of
           (out, s1, evs) \<Rightarrow>
             (let st1 = st\<lparr>world := s1, events := events st @ evs\<rparr>
              in case TryContext out of
                   Some err \<Rightarrow>
                     (None, st1\<lparr>events := events st1 @ [Logged ''Worker action failed'' err]\<rparr>)
                 | None \<Rightarrow> (None, st1)))"

subsection \<open>\<^verbatim>\<open>Run\<close>\<close>

definition tick :: "'s Worker \<Rightarrow> 's state \<Rightarrow> 's state exec" where
  "tick w st = (case runAction w st of (err, st1) \<Rightarrow> handle_error (errorHandler w) err st1)"

definition Run_loop :: "'s Worker \<Rightarrow> sched list \<Rightarrow> 's state \<Rightarrow> 's ended" where
  "Run_loop w = select_loop (tick w)"

definition Run :: "'s Worker \<Rightarrow> sched list \<Rightarrow> 's state \<Rightarrow> 's ended" where
  "Run w xs st =
     (case (if fromStart w then tick w st else Goes st) of
        Blocked \<Rightarrow> Deadlocked
      | Goes st1 \<Rightarrow> (if 0 <s duration w then Run_loop w xs st1 else Crashed))"

section \<open>The distributed lock\<close>

subsection \<open>The store\<close>

text \<open>
  Modelled from the spec: the store client (\<^verbatim>\<open>redis.Client\<close> of the storage module, not
  among the sources) and the store behind it. The spec gives the operations: \<^verbatim>\<open>SET key
  value NX EX ttl\<close> "create only if absent, with expiry", \<^verbatim>\<open>GET key\<close> "read current value",
  and scripts evaluated atomically. A record of the store is a value and the expiry it was
  last given, in nanoseconds. A store that cannot be reached answers every call with its
  transport error and changes nothing. Reading an absent key is the error \<^verbatim>\<open>redis.Nil\<close>;
  \<^verbatim>\<open>expire\<close> with a timeout that is not positive deletes the key, as Redis does.
\<close>

type_synonym records = "string \<rightharpoonup> string \<times> int"

record store =
  kv :: records
  unreachable :: "error option"

definition redis_Nil :: error where
  "redis_Nil = ErrNew ''redis: nil''"

definition SetNX :: "store \<Rightarrow> string \<Rightarrow> string \<Rightarrow> Duration \<Rightarrow> (error + bool) \<times> store" where
  "SetNX st k v ttl =
     (case unreachable st of
        Some e \<Rightarrow> (Inl e, st)
      | None \<Rightarrow>
          (case kv st k of
             Some r \<Rightarrow> (Inr False, st)
           | None \<Rightarrow> (Inr True, st\<lparr>kv := (kv st)(k \<mapsto> (v, sint ttl))\<rparr>)))"

definition Get :: "store \<Rightarrow> string \<Rightarrow> error + string" where
  "Get st k =
     (case unreachable st of
        Some e \<Rightarrow> Inl e
      | None \<Rightarrow> (case kv st k of None \<Rightarrow> Inl redis_Nil | Some (v, t) \<Rightarrow> Inr v))"

definition Eval :: "store \<Rightarrow> (records \<Rightarrow> int \<times> records) \<Rightarrow> (error + int) \<times> store" where
  "Eval st script =
     (case unreachable st of
        Some e \<Rightarrow> (Inl e, st)
      | None \<Rightarrow> (case script (kv st) of (r, kv1) \<Rightarrow> (Inr r, st\<lparr>kv := kv1\<rparr>)))"

definition redis_get :: "records \<Rightarrow> string \<Rightarrow> string option" where
  "redis_get m k = map_option fst (m k)"

definition redis_del :: "records \<Rightarrow> string \<Rightarrow> int \<times> records" where
  "redis_del m k = (case m k of None \<Rightarrow> (0, m) | Some r \<Rightarrow> (1, m(k := None)))"

definition redis_expire :: "records \<Rightarrow> string \<Rightarrow> int \<Rightarrow> int \<times> records" where
  "redis_expire m k secs =
     (case m k of
        None \<Rightarrow> (0, m)
      | Some (v, t) \<Rightarrow>
          (if secs \<le> 0 then (1, m(k := None)) else (1, m(k \<mapsto> (v, secs * 1000000000)))))"

subsection \<open>The two scripts of \<^verbatim>\<open>locker.go\<close>\<close>

definition unlock_script :: "string \<Rightarrow> string \<Rightarrow> records \<Rightarrow> int \<times> records" where
  \<comment> \<open>\<^verbatim>\<open>KEYS[1]\<close>, \<^verbatim>\<open>ARGV[1]\<close>\<close>
  "unlock_script key arg m =
     (if redis_get m key = Some arg then redis_del m key else (0, m))"

definition renew_script :: "string \<Rightarrow> string \<Rightarrow> int \<Rightarrow> records \<Rightarrow> int \<times> records" where
  \<comment> \<open>\<^verbatim>\<open>KEYS[1]\<close>, \<^verbatim>\<open>ARGV[1]\<close>, \<^verbatim>\<open>ARGV[2]\<close>\<close>
  "renew_script key arg secs m =
     (if redis_get m key = Some arg then redis_expire m key secs else (0, m))"

subsection \<open>\<^verbatim>\<open>Locker\<close>\<close>

text \<open>
  Of the context and the cancel function of a \<^verbatim>\<open>Locker\<close> the model keeps whether the cancel
  function is set and whether the context is cancelled, and it counts the renewal
  goroutines started.
\<close>

record Locker =
  lockKey :: string
  lockValue :: string
  lockTTL :: Duration
  renewInterval :: Duration
  cancel_set :: bool
  ctx_cancelled :: bool
  renewals_started :: nat

definition NewLocker :: "string \<Rightarrow> Duration \<Rightarrow> string \<Rightarrow> Locker" where
  \<comment> \<open>the last argument is the value \<^verbatim>\<open>generateLockValue()\<close> draws\<close>
  "NewLocker workerName ttl token =
     \<lparr>lockKey = ''worker:lock:'' @ workerName, lockValue = token, lockTTL = ttl,
      renewInterval = duration_div ttl 3, cancel_set = False, ctx_cancelled = False,
      renewals_started = 0\<rparr>"

definition TryLock :: "Locker \<Rightarrow> store \<Rightarrow> error option \<times> Locker \<times> store" where
  "TryLock l st =
     (case SetNX st (lockKey l) (lockValue l) (lockTTL l) of
        (Inl err, st1) \<Rightarrow> (Some (ErrWrap ''failed to acquire lock'' err), l, st1)
      | (Inr result, st1) \<Rightarrow>
          (if \<not> result then (Some ErrLocked, l, st1)
           else (None,
                 l\<lparr>cancel_set := True, ctx_cancelled := False,
                   renewals_started := Suc (renewals_started l)\<rparr>,
                 st1)))"

definition Unlock :: "Locker \<Rightarrow> store \<Rightarrow> error option \<times> Locker \<times> store" where
  "Unlock l st =
     (let l1 = (if cancel_set l then l\<lparr>ctx_cancelled := True\<rparr> else l)
      in case Eval st (unlock_script (lockKey l) (lockValue l)) of
           (Inl err, st1) \<Rightarrow> (Some err, l1, st1)
         | (Inr r, st1) \<Rightarrow> (None, l1, st1))"

definition IsLocked :: "Locker \<Rightarrow> store \<Rightarrow> bool" where
  "IsLocked l st = (case Get st (lockKey l) of Inl err \<Rightarrow> False | Inr val \<Rightarrow> val = lockValue l)"

subsection \<open>The renewal loop\<close>

text \<open>
  \<^verbatim>\<open>int(l.lockTTL.Seconds())\<close> goes through \<^verbatim>\<open>float64\<close>: \<^verbatim>\<open>Seconds\<close> returns
  \<^verbatim>\<open>float64(sec) + float64(nsec)/1e9\<close> for \<^verbatim>\<open>sec := d / Second\<close> and \<^verbatim>\<open>nsec := d % Second\<close>.
  A \<^verbatim>\<open>float64\<close> is kept as the ratio of two integers it is equal to, and every operation
  rounds its exact result to the nearest number with a significand of 53 bits, ties to
  even (the numbers here are far from the limits of the exponent, which are left out).
\<close>

type_synonym ratio = "int \<times> int"

fun bit_length :: "nat \<Rightarrow> nat" where
  "bit_length n = (if n = 0 then 0 else Suc (bit_length (n div 2)))"

declare bit_length.simps [simp del]

definition ratio_shift :: "ratio \<Rightarrow> int \<Rightarrow> ratio" where
  \<comment> \<open>the ratio times \<open>2 ^ e\<close>\<close>
  "ratio_shift x e =
     (case x of (n, d) \<Rightarrow> if 0 \<le> e then (n * 2 ^ nat e, d) else (n, d * 2 ^ nat (- e)))"

definition round_half_even :: "int \<Rightarrow> int \<Rightarrow> int" where
  \<comment> \<open>the integer nearest to \<open>n / d\<close>, for \<open>0 \<le> n\<close> and \<open>0 < d\<close>\<close>
  "round_half_even n d =
     (let q = n div d; r = n mod d
      in if 2 * r < d then q else if d < 2 * r then q + 1 else if even q then q else q + 1)"

definition float64_nearest :: "ratio \<Rightarrow> ratio" where
  \<comment> \<open>\<open>k\<close> is the exponent of the ratio: \<open>2 ^ k \<le> \<bar>n\<bar> / d < 2 ^ (k + 1)\<close>\<close>
  "float64_nearest x =
     (case x of (n, d) \<Rightarrow>
        if n = 0 then (0, 1)
        else
          (let a = \<bar>n\<bar>;
               k0 = int (bit_length (nat a)) - int (bit_length (nat d));
               k = (case ratio_shift (a, d) (- k0) of (n1, d1) \<Rightarrow> if d1 \<le> n1 then k0 else k0 - 1);
               m = (case ratio_shift (a, d) (52 - k) of (n2, d2) \<Rightarrow> round_half_even n2 d2)
           in case ratio_shift (m, 1) (k - 52) of (rn, rd) \<Rightarrow> (if 0 < n then rn else - rn, rd)))"

definition float64_of_int :: "int \<Rightarrow> ratio" where
  "float64_of_int i = float64_nearest (i, 1)"

definition float64_add :: "ratio \<Rightarrow> ratio \<Rightarrow> ratio" where
  "float64_add x y = (case (x, y) of ((a, b), (c, d)) \<Rightarrow> float64_nearest (a * d + c * b, b * d))"

definition float64_div :: "ratio \<Rightarrow> ratio \<Rightarrow> ratio" where
  \<comment> \<open>for a positive divisor\<close>
  "float64_div x y = (case (x, y) of ((a, b), (c, d)) \<Rightarrow> float64_nearest (a * d, b * c))"

definition int_of_float64 :: "ratio \<Rightarrow> int" where
  \<comment> \<open>the conversion \<^verbatim>\<open>int(f)\<close>: the fraction is discarded\<close>
  "int_of_float64 x = (case x of (n, d) \<Rightarrow> n sdiv d)"

definition Seconds :: "Duration \<Rightarrow> ratio" where
  "Seconds d =
     (let sec = sint d sdiv 1000000000;
          nsec = sint d smod 1000000000
      in float64_add (float64_of_int sec)
           (float64_div (float64_of_int nsec) (float64_of_int 1000000000)))"

definition ttl_seconds :: "Duration \<Rightarrow> int" where
  \<comment> \<open>\<^verbatim>\<open>int(l.lockTTL.Seconds())\<close>\<close>
  "ttl_seconds d = int_of_float64 (Seconds d)"

definition renew_tick :: "Locker \<Rightarrow> store \<Rightarrow> bool \<times> Locker \<times> store" where
  \<comment> \<open>the body of \<^verbatim>\<open>case <-ticker.C\<close>; the flag says whether the loop goes on\<close>
  "renew_tick l st =
     (case Eval st (renew_script (lockKey l) (lockValue l) (ttl_seconds (lockTTL l))) of
        (Inl err, st1) \<Rightarrow> (False, l\<lparr>ctx_cancelled := True\<rparr>, st1)
      | (Inr result, st1) \<Rightarrow>
          (if result = 0 then (False, l\<lparr>ctx_cancelled := True\<rparr>, st1) else (True, l, st1)))"

text \<open>
  The loop runs against a schedule: another client writes to the store, the context of the
  lock is cancelled from outside (by \<^verbatim>\<open>Unlock\<close> or by the parent context), or the
  \<^verbatim>\<open>select\<close> takes a case; \<^verbatim>\<open>l.ctx.Done()\<close> can only be taken once the context is cancelled.
  \<open>renew_calls\<close> counts the renewals attempted. How long the ticker takes between two ticks
  is not part of the model, only the interval it was made with.
\<close>

datatype renew_step = OtherClient "store \<Rightarrow> store" | CancelFromOutside | TakeDone | TakeTick

record renew_state =
  the_locker :: Locker
  the_store :: store
  renew_calls :: nat
  ticker :: Duration

datatype renew_ended = RenewWaiting renew_state | RenewReturned renew_state | RenewPanicked

fun renew_loop :: "renew_step list \<Rightarrow> renew_state \<Rightarrow> renew_ended" where
  "renew_loop [] rs = RenewWaiting rs"
| "renew_loop (OtherClient f # xs) rs = renew_loop xs (rs\<lparr>the_store := f (the_store rs)\<rparr>)"
| "renew_loop (CancelFromOutside # xs) rs =
     renew_loop xs (rs\<lparr>the_locker := (the_locker rs)\<lparr>ctx_cancelled := True\<rparr>\<rparr>)"
| "renew_loop (TakeDone # xs) rs =
     (if ctx_cancelled (the_locker rs) then RenewReturned rs else renew_loop xs rs)"
| "renew_loop (TakeTick # xs) rs =
     (case renew_tick (the_locker rs) (the_store rs) of
        (goes_on, l1, st1) \<Rightarrow>
          (let rs1 = rs\<lparr>the_locker := l1, the_store := st1, renew_calls := Suc (renew_calls rs)\<rparr>
           in if goes_on then renew_loop xs rs1 else RenewReturned rs1))"

definition renewLock :: "Locker \<Rightarrow> renew_step list \<Rightarrow> store \<Rightarrow> renew_ended" where
  \<comment> \<open>\<^verbatim>\<open>time.NewTicker(l.renewInterval)\<close> panics on an interval that is not positive;
      \<open>ticker\<close> keeps the interval of the ticker the loop waits on\<close>
  "renewLock l xs st =
     (if 0 <s renewInterval l
      then renew_loop xs
             \<lparr>the_locker = l, the_store = st, renew_calls = 0, ticker = renewInterval l\<rparr>
      else RenewPanicked)"

subsection \<open>\<^verbatim>\<open>CancelRunningWorker\<close>\<close>

record CancelRunningWorker =
  crw_cancel_set :: bool
  monitors_started :: nat

definition NewCancelRunningWorker :: CancelRunningWorker where
  "NewCancelRunningWorker = \<lparr>crw_cancel_set = False, monitors_started = 0\<rparr>"

definition Middleware_of ::
  "CancelRunningWorker \<Rightarrow> Locker \<Rightarrow> store \<Rightarrow> error option \<times> CancelRunningWorker" where
  \<comment> \<open>the middleware that \<^verbatim>\<open>CancelRunningWorker.Middleware()\<close> returns, called once\<close>
  "Middleware_of c l st =
     (if \<not> IsLocked l st then (Some ErrLocked, c)
      else (None, c\<lparr>crw_cancel_set := True, monitors_started := Suc (monitors_started c)\<rparr>))"

text \<open>
  The monitor polls every second; the flag it returns says whether it cancelled the
  context of the guarded execution.
\<close>

datatype monitor_step = StoreMoves "store \<Rightarrow> store" | ParentDone | PollTick

fun monitorLock :: "CancelRunningWorker \<Rightarrow> Locker \<Rightarrow> monitor_step list \<Rightarrow> store \<Rightarrow> bool option" where
  "monitorLock c l [] st = None"
| "monitorLock c l (StoreMoves f # xs) st = monitorLock c l xs (f st)"
| "monitorLock c l (ParentDone # xs) st = Some False"
| "monitorLock c l (PollTick # xs) st =
     (if \<not> IsLocked l st then Some (crw_cancel_set c) else monitorLock c l xs st)"

text \<open>
  The lock and the watcher as middlewares of a scheduler whose state holds the store, the
  \<^verbatim>\<open>Locker\<close> and the watcher.
\<close>

record lock_world =
  w_store :: store
  w_locker :: Locker
  w_watcher :: CancelRunningWorker

definition LockMiddleware :: "lock_world Middleware" where
  "LockMiddleware c s =
     (case TryLock (w_locker s) (w_store s) of
        (err, l1, st1) \<Rightarrow> (Returns err, s\<lparr>w_locker := l1, w_store := st1\<rparr>))"

definition UnlockMiddleware :: "lock_world Middleware" where
  "UnlockMiddleware c s =
     (case Unlock (w_locker s) (w_store s) of
        (err, l1, st1) \<Rightarrow> (Returns err, s\<lparr>w_locker := l1, w_store := st1\<rparr>))"

definition WatcherMiddleware :: "lock_world Middleware" where
  "WatcherMiddleware c s =
     (case Middleware_of (w_watcher s) (w_locker s) (w_store s) of
        (err, c1) \<Rightarrow> (Returns err, s\<lparr>w_watcher := c1\<rparr>))"

section \<open>Observing a tick\<close>



definition tick_events :: "'s Worker \<Rightarrow> 's \<Rightarrow> event list" where
  "tick_events w s = snd (snd (wrapped_action w (runAction_ctx w) s))"

definition runAction_events :: "'s Worker \<Rightarrow> 's \<Rightarrow> event list" where
  "runAction_events w s = events (snd (runAction w (fresh s)))"

text \<open>
  A scheduler is blind to its context when neither the action nor a middleware looks at the
  context it is handed; \<open>forget_events\<close> keeps of the end of a loop everything but the
  record of events.
\<close>

definition ctx_blind :: "'s Worker \<Rightarrow> bool" where
  "ctx_blind w \<longleftrightarrow>
     (\<forall>c c' s. action w c s = action w c' s)
     \<and> (\<forall>m \<in> set (beforeMiddlewares w @ afterMiddlewares w). \<forall>c c' s. m c s = m c' s)"

definition forget_events :: "'s ended \<Rightarrow> 's ended" where
  "forget_events r =
     (case r of
        Waiting st \<Rightarrow> Waiting (st\<lparr>events := []\<rparr>)
      | Returned st \<Rightarrow> Returned (st\<lparr>events := []\<rparr>)
      | Deadlocked \<Rightarrow> Deadlocked
      | Crashed \<Rightarrow> Crashed)"

subsection \<open>Example configurations\<close>

definition mw_ok :: "'s Middleware" where
  "mw_ok c s = (Returns None, s)"

definition mw_fails :: "'s Middleware" where
  "mw_fails c s = (Returns (Some (ErrNew ''audit failed'')), s)"

definition mw_locked :: "'s Middleware" where
  "mw_locked c s = (Returns (Some ErrLocked), s)"

definition act_ok :: "ctx \<Rightarrow> 's \<Rightarrow> outcome \<times> 's" where
  "act_ok c s = (Returns None, s)"

definition act_fails :: "ctx \<Rightarrow> 's \<Rightarrow> outcome \<times> 's" where
  "act_fails c s = (Returns (Some (ErrNew ''boom'')), s)"



definition failing_worker :: "unit Worker" where
  "failing_worker = ErrorHandler (Some (\<lambda>e. False)) (NewWorker ''job'' Second act_fails False)"

definition ok_worker :: "unit Worker" where
  "ok_worker = NewWorker ''job'' Second act_ok False"

definition timed_worker :: "unit Worker" where
  "timed_worker = Timeout (5 * Second) (NewWorker ''job'' Second act_ok False)"

definition succeeding_worker2 :: "unit Worker2" where
  "succeeding_worker2 =
     \<lparr>name2 = ''job'', fromStart2 = False, duration2 = Second,
      action2 = (\<lambda>c s. \<lparr>stop_calls = 0, ended = Returns None, left = s\<rparr>),
      errorHandler2 = Some (\<lambda>e. False), timeout2 = 0\<rparr>"

definition stopping_worker2 :: "unit Worker2" where
  "stopping_worker2 =
     \<lparr>name2 = ''job'', fromStart2 = False, duration2 = Second,
      action2 = (\<lambda>c s. \<lparr>stop_calls = 1, ended = Returns None, left = s\<rparr>),
      errorHandler2 = None, timeout2 = 0\<rparr>"

definition deadlocking_worker2 :: "unit Worker2" where
  "deadlocking_worker2 =
     \<lparr>name2 = ''job'', fromStart2 = False, duration2 = Second,
      action2 = (\<lambda>c s. \<lparr>stop_calls = 1, ended = Returns None, left = s\<rparr>),
      errorHandler2 = Some (\<lambda>e. False), timeout2 = 0\<rparr>"

text \<open>Tokens as \<^verbatim>\<open>generateLockValue\<close> makes them: 16 random bytes in hexadecimal.\<close>

definition token_A :: string where
  "token_A = ''0123456789abcdef0123456789abcdef''"

definition token_B :: string where
  "token_B = ''fedcba9876543210fedcba9876543210''"

definition token_C :: string where
  "token_C = ''00112233445566778899aabbccddeeff''"

definition locker_A :: Locker where
  "locker_A = NewLocker ''job'' (30 * Second) token_A"

definition empty_store :: store where
  "empty_store = \<lparr>kv = Map.empty, unreachable = None\<rparr>"

definition store_held_by_A :: store where
  "store_held_by_A =
     \<lparr>kv = [''worker:lock:job'' \<mapsto> (token_A, 30000000000)], unreachable = None\<rparr>"

definition store_held_by_B :: store where
  "store_held_by_B =
     \<lparr>kv = [''worker:lock:job'' \<mapsto> (token_B, 30000000000)], unreachable = None\<rparr>"

definition store_down :: store where
  "store_down = \<lparr>kv = [''worker:lock:job'' \<mapsto> (token_A, 30000000000)],
                 unreachable = Some (ErrNew ''connection refused'')\<rparr>"

definition locker_C :: Locker where
  "locker_C = NewLocker ''job'' 1500000000 token_C"

definition store_held_by_C :: store where
  "store_held_by_C =
     \<lparr>kv = [''worker:lock:job'' \<mapsto> (token_C, 1500000000)], unreachable = None\<rparr>"

definition token_D :: string where
  "token_D = ''8f14e45fceea167a5a36dedd4bea2543''"

definition locker_D :: Locker where
  "locker_D = NewLocker ''job'' 900000000 token_D"

definition locker_D_held :: Locker where
  \<comment> \<open>\<open>locker_D\<close> after a successful \<^verbatim>\<open>TryLock\<close>\<close>
  "locker_D_held = locker_D\<lparr>cancel_set := True, renewals_started := 1\<rparr>"

definition store_held_by_D :: store where
  "store_held_by_D =
     \<lparr>kv = [''worker:lock:job'' \<mapsto> (token_D, 900000000)], unreachable = None\<rparr>"

definition guarded_worker :: "lock_world Worker" where
  "guarded_worker = BeforeMiddlewares [WatcherMiddleware] (NewWorker ''job'' Second act_ok False)"

definition world_of :: "store \<Rightarrow> lock_world" where
  "world_of st = \<lparr>w_store = st, w_locker = locker_A, w_watcher = NewCancelRunningWorker\<rparr>"

section \<open>Properties\<close>

lemma try_fn_never_nil: "try_fn out \<noteq> None"
  by (cases out) (auto simp: try_fn_def Let_def)

text \<open>
  C3. A panic raised during the action is converted into a non-nil error, but an action
  that returns nil does not yield nil: the deferred function of \<^verbatim>\<open>try\<close> tests the
  result, not the recovered value, and turns the nil result into the error \<^verbatim>\<open><nil>\<close>. A tick
  whose action succeeds therefore calls the error handler, and a handler that answers
  \<^verbatim>\<open>false\<close> stops the scheduler.
\<close>

theorem try_fabricates_error_on_success:
  "try_fn (Returns None) = Some (ErrNew ''<nil>'')
   \<and> try_fn (Panics ''boom'') = Some (ErrNew ''boom'')
   \<and> try_fn (Returns (Some (ErrNew ''failed''))) = Some (ErrNew ''failed'')
   \<and> Run2_loop succeeding_worker2 [TickerFires, Select TickerRecv] (fresh ())
       = Waiting ((fresh ())\<lparr>stopper := 1,
           events := [ActionCall (WithTimeout Background Second) (Returns None),
                      HandlerCall (ErrNew ''<nil>'') False]\<rparr>)"
  by (simp add: try_fn_def recover_def Sprintf_v_def Run2_loop_def tick2_def runAction2_def
      runAction2_ctx_def handle_error_def succeeding_worker2_def chan_send_def fresh_def
      Second_def word_sless_alt)

lemma run_before_locked: "run_before ms i True c s = (Inl True, s, [])"
  by (cases ms) simp_all




lemma run_before_events:
  "run_before ms i locked c s = (r, s', evs) \<Longrightarrow> e \<in> set evs
     \<Longrightarrow> (\<exists>k out. e = BeforeCall k out) \<or> (\<exists>m err. e = Logged m err)"
proof (induction ms arbitrary: i locked s r s' evs)
  case Nil
  then show ?case by simp
next
  case (Cons m ms)
  show ?case
  proof (cases locked)
    case True
    with Cons.prems show ?thesis by simp
  next
    case False
    obtain o1 s1 where m: "m c s = (o1, s1)" by (cases "m c s")
    obtain r2 s2 evs2 where rec: "run_before ms (Suc i) False c s1 = (r2, s2, evs2)"
      by (cases "run_before ms (Suc i) False c s1")
    have ih: "e \<in> set evs2 \<Longrightarrow> (\<exists>k out. e = BeforeCall k out) \<or> (\<exists>m err. e = Logged m err)"
      using Cons.IH [OF rec] .
    show ?thesis
      using Cons.prems False m rec ih
      by (auto simp: run_before_locked split: outcome.splits option.splits if_splits)
  qed
qed

lemma run_after_events:
  "run_after ms i c s = (r, s', evs) \<Longrightarrow> e \<in> set evs
     \<Longrightarrow> (\<exists>k out. e = AfterCall k out) \<or> (\<exists>m err. e = Logged m err)"
proof (induction ms arbitrary: i s r s' evs)
  case Nil
  then show ?case by simp
next
  case (Cons m ms)
  obtain o1 s1 where m: "m c s = (o1, s1)" by (cases "m c s")
  obtain r2 s2 evs2 where rec: "run_after ms (Suc i) c s1 = (r2, s2, evs2)"
    by (cases "run_after ms (Suc i) c s1")
  have ih: "e \<in> set evs2 \<Longrightarrow> (\<exists>k out. e = AfterCall k out) \<or> (\<exists>m err. e = Logged m err)"
    using Cons.IH [OF rec] .
  show ?case
    using Cons.prems m rec ih
    by (auto split: outcome.splits option.splits if_splits)
qed



lemma runAction_nil: "fst (runAction w st) = None"
  by (simp add: runAction_def Let_def split: prod.splits option.splits)

lemma runAction_events_eq:
  "set (runAction_events w s) - range (\<lambda>(m, e). Logged m e)
     = set (tick_events w s) - range (\<lambda>(m, e). Logged m e)"
  by (auto simp: runAction_events_def tick_events_def runAction_def fresh_def Let_def
           split: prod.splits option.splits)

lemma in_runAction_events:
  "\<forall>m err. e \<noteq> Logged m err \<Longrightarrow> e \<in> set (runAction_events w s) \<longleftrightarrow> e \<in> set (tick_events w s)"
  using runAction_events_eq [of w s] by auto



lemma deferred_after_events:
  "deferred_after w locked c out s = (out', s', evs) \<Longrightarrow> e \<in> set evs
     \<Longrightarrow> (\<exists>k o'. e = AfterCall k o') \<or> (\<exists>m err. e = Logged m err)"
  by (auto simp: deferred_after_def split: if_splits prod.splits option.splits
           dest: run_after_events)




lemmas example_defs =
  runAction_events_def runAction_def wrapped_action_def deferred_after_def runAction_ctx_def
  TryContext_def BeforeMiddlewares_def AfterMiddlewares_def NewWorker_def ErrorHandler_def
  Timeout_def FromStart_def fresh_def Background_def WithTimeout_def Second_def
  mw_fails_def mw_locked_def mw_ok_def act_ok_def act_fails_def Let_def




lemma tick_goes:
  "\<exists>st'. tick w st = Goes st' \<and> stopper st' = stopper st \<and> done_chan st' = done_chan st
        \<and> cancelled st' = cancelled st \<and> tick_pending st' = tick_pending st"
  by (simp add: tick_def runAction_def handle_error_def Let_def split: prod.splits option.splits)

lemma tick_no_handler:
  "tick w st = Goes st' \<Longrightarrow> HandlerCall e b \<in> set (events st') \<Longrightarrow> HandlerCall e b \<in> set (events st)"
proof -
  assume t: "tick w st = Goes st'" and h: "HandlerCall e b \<in> set (events st')"
  have "events st' = events (snd (runAction w st))"
    using t runAction_nil [of w st]
    by (cases "runAction w st") (simp add: tick_def handle_error_def)
  then have "HandlerCall e b \<in> set (events st) \<or> HandlerCall e b \<in> set (tick_events w (world st))"
    using h by (auto simp: runAction_def tick_events_def Let_def split: prod.splits option.splits)
  moreover have "HandlerCall e b \<notin> set (tick_events w (world st))"
    by (auto simp: tick_events_def wrapped_action_def split: prod.splits sum.splits if_splits
        dest: run_before_events deferred_after_events)
  ultimately show ?thesis by blast
qed

text \<open>
  C1. A tick whose action returns a non-nil error should hand that error to the configured
  error handler, and a \<^verbatim>\<open>false\<close> answer should raise the stop signal. \<^verbatim>\<open>runAction\<close> logs the
  error and returns nil, so \<^verbatim>\<open>Run\<close> never sees it: with a handler that always answers
  \<^verbatim>\<open>false\<close> and an action that always fails, a tick (and the run from start) leaves the
  stopper empty and records no call of the handler.
\<close>

theorem handler_never_invoked:
  "Run_loop failing_worker [TickerFires, Select TickerRecv] (fresh ())
     = Waiting ((fresh ())\<lparr>events :=
         [ActionCall Background (Returns (Some (ErrNew ''boom''))),
          Logged ''Worker action failed'' (ErrNew ''boom'')]\<rparr>)
   \<and> Run (FromStart True failing_worker) [] (fresh ())
     = Waiting ((fresh ())\<lparr>events :=
         [ActionCall Background (Returns (Some (ErrNew ''boom''))),
          Logged ''Worker action failed'' (ErrNew ''boom'')]\<rparr>)"
  by (simp add: Run_def Run_loop_def tick_def handle_error_def failing_worker_def example_defs
      word_sless_alt)

lemma action_ctx:
  "ActionCall c out \<in> set (tick_events w s) \<Longrightarrow> c = runAction_ctx w"
  by (auto simp: tick_events_def wrapped_action_def split: prod.splits sum.splits if_splits
      dest: run_before_events deferred_after_events)

lemma blind_before:
  "\<forall>m \<in> set ms. \<forall>c c' s. m c s = m c' s \<Longrightarrow> run_before ms i l c s = run_before ms i l c' s"
proof (induction ms arbitrary: i l s)
  case Nil
  then show ?case by simp
next
  case (Cons m ms)
  have m: "m c s = m c' s"
    using Cons.prems by simp
  have ih: "\<And>j l' s1. run_before ms j l' c s1 = run_before ms j l' c' s1"
    using Cons.IH Cons.prems by simp
  show ?case
    by (simp add: m ih split: prod.splits outcome.splits option.splits)
qed

lemma blind_after:
  "\<forall>m \<in> set ms. \<forall>c c' s. m c s = m c' s \<Longrightarrow> run_after ms i c s = run_after ms i c' s"
proof (induction ms arbitrary: i s)
  case Nil
  then show ?case by simp
next
  case (Cons m ms)
  have m: "m c s = m c' s"
    using Cons.prems by simp
  have ih: "\<And>j s1. run_after ms j c s1 = run_after ms j c' s1"
    using Cons.IH Cons.prems by simp
  show ?case
    by (simp add: m ih split: prod.splits outcome.splits option.splits)
qed

lemma blind_wrapped:
  assumes "ctx_blind w"
  shows "fst (snd (wrapped_action w c s)) = fst (snd (wrapped_action w c' s))"
proof -
  have b: "\<forall>m \<in> set (beforeMiddlewares w). \<forall>c c' s. m c s = m c' s"
    and a: "\<forall>m \<in> set (afterMiddlewares w). \<forall>c c' s. m c s = m c' s"
    and act: "\<And>s. action w c s = action w c' s"
    using assms by (auto simp: ctx_blind_def)
  obtain r s1 evs where rb: "run_before (beforeMiddlewares w) 0 False c s = (r, s1, evs)"
    by (cases "run_before (beforeMiddlewares w) 0 False c s")
  obtain r' s1' evs' where rb': "run_before (beforeMiddlewares w) 0 False c' s = (r', s1', evs')"
    by (cases "run_before (beforeMiddlewares w) 0 False c' s")
  have eq: "r' = r" "s1' = s1"
    using blind_before [OF b, of 0 False c s c'] rb rb' by simp_all
  have af: "run_after (afterMiddlewares w) 0 c s2 = run_after (afterMiddlewares w) 0 c' s2" for s2
    using blind_after [OF a] by blast
  show ?thesis
  proof (cases r)
    case (Inr p)
    then show ?thesis
      using rb rb' eq by (simp add: wrapped_action_def)
  next
    case (Inl locked)
    show ?thesis
    proof (cases locked)
      case True
      then show ?thesis
        using Inl rb rb' eq by (simp add: wrapped_action_def deferred_after_def)
    next
      case False
      obtain out s2 where ac: "action w c s1 = (out, s2)"
        by (cases "action w c s1")
      then have ac': "action w c' s1 = (out, s2)"
        using act by simp
      obtain q s3 evs3 where ra: "run_after (afterMiddlewares w) 0 c s2 = (q, s3, evs3)"
        by (cases "run_after (afterMiddlewares w) 0 c s2")
      obtain q' s3' evs3' where ra': "run_after (afterMiddlewares w) 0 c' s2 = (q', s3', evs3')"
        by (cases "run_after (afterMiddlewares w) 0 c' s2")
      have "q' = q" "s3' = s3"
        using af [of s2] ra ra' by simp_all
      then show ?thesis
        using False Inl rb rb' eq ac ac' ra ra'
        by (simp add: wrapped_action_def deferred_after_def split: option.splits)
    qed
  qed
qed

lemma deferred_Timeout:
  "deferred_after (Timeout t w) locked c out s = deferred_after w locked c out s"
  by (simp add: deferred_after_def Timeout_def)

lemma wrapped_Timeout: "wrapped_action (Timeout t w) c s = wrapped_action w c s"
proof -
  have "beforeMiddlewares (Timeout t w) = beforeMiddlewares w" "action (Timeout t w) = action w"
    by (simp_all add: Timeout_def)
  then show ?thesis
    by (simp add: wrapped_action_def deferred_Timeout split: prod.splits sum.splits)
qed

lemma tick_world:
  "\<exists>evs. tick w st
     = Goes (st\<lparr>world := fst (snd (wrapped_action w (runAction_ctx w) (world st))), events := evs\<rparr>)"
  by (auto simp: tick_def runAction_def handle_error_def Let_def split: prod.splits option.splits)

lemma same_fields:
  "a\<lparr>events := []\<rparr> = b\<lparr>events := []\<rparr> \<Longrightarrow>
     world a = world b \<and> stopper a = stopper b \<and> done_chan a = done_chan b
     \<and> cancelled a = cancelled b \<and> tick_pending a = tick_pending b"
  by (cases a; cases b) simp

lemma tick_blind:
  assumes "ctx_blind w" and "a\<lparr>events := []\<rparr> = b\<lparr>events := []\<rparr>"
  shows "\<exists>a' b'. tick (Timeout t w) a = Goes a' \<and> tick w b = Goes b'
           \<and> a'\<lparr>events := []\<rparr> = b'\<lparr>events := []\<rparr>"
proof -
  obtain e1 where t1: "tick (Timeout t w) a
     = Goes (a\<lparr>world := fst (snd (wrapped_action (Timeout t w) (runAction_ctx (Timeout t w)) (world a))),
              events := e1\<rparr>)"
    using tick_world [of "Timeout t w" a] by blast
  obtain e2 where t2: "tick w b
     = Goes (b\<lparr>world := fst (snd (wrapped_action w (runAction_ctx w) (world b))), events := e2\<rparr>)"
    using tick_world [of w b] by blast
  have w: "world a = world b"
    using same_fields [OF assms(2)] by simp
  have "fst (snd (wrapped_action (Timeout t w) (runAction_ctx (Timeout t w)) (world a)))
      = fst (snd (wrapped_action w (runAction_ctx w) (world b)))"
    using blind_wrapped [OF assms(1)] w by (simp add: wrapped_Timeout)
  then show ?thesis
    using t1 t2 assms(2) by (cases a; cases b) simp
qed

lemma select_loop_blind:
  assumes sim: "\<And>a b. a\<lparr>events := []\<rparr> = b\<lparr>events := []\<rparr> \<Longrightarrow>
      \<exists>a' b'. t a = Goes a' \<and> t' b = Goes b' \<and> a'\<lparr>events := []\<rparr> = b'\<lparr>events := []\<rparr>"
  shows "a\<lparr>events := []\<rparr> = b\<lparr>events := []\<rparr> \<Longrightarrow>
     forget_events (select_loop t xs a) = forget_events (select_loop t' xs b)"
proof (induction xs arbitrary: a b)
  case Nil
  then show ?case by (simp add: forget_events_def)
next
  case (Cons x xs)
  note f = same_fields [OF Cons.prems]
  show ?case
  proof (cases x)
    case ExternalCancel
    have "(a\<lparr>cancelled := True\<rparr>)\<lparr>events := []\<rparr> = (b\<lparr>cancelled := True\<rparr>)\<lparr>events := []\<rparr>"
      using Cons.prems by (cases a; cases b) simp
    then show ?thesis
      using ExternalCancel Cons.IH by simp
  next
    case TickerFires
    have "(a\<lparr>tick_pending := True\<rparr>)\<lparr>events := []\<rparr> = (b\<lparr>tick_pending := True\<rparr>)\<lparr>events := []\<rparr>"
      using Cons.prems by (cases a; cases b) simp
    then show ?thesis
      using TickerFires Cons.IH by simp
  next
    case (Select sc)
    show ?thesis
    proof (cases sc)
      case CtxDone
      have "forget_events (send_done a) = forget_events (send_done b)"
        using Cons.prems f
        by (cases a; cases b) (simp add: send_done_def forget_events_def chan_send_def)
      then show ?thesis
        using Select CtxDone f Cons.IH [OF Cons.prems] by simp
    next
      case StopperRecv
      have "forget_events (send_done (a\<lparr>stopper := stopper a - 1\<rparr>))
          = forget_events (send_done (b\<lparr>stopper := stopper b - 1\<rparr>))"
        using Cons.prems f
        by (cases a; cases b) (simp add: send_done_def forget_events_def chan_send_def)
      then show ?thesis
        using Select StopperRecv f Cons.IH [OF Cons.prems] by simp
    next
      case TickerRecv
      show ?thesis
      proof (cases "tick_pending a")
        case True
        have "(a\<lparr>tick_pending := False\<rparr>)\<lparr>events := []\<rparr> = (b\<lparr>tick_pending := False\<rparr>)\<lparr>events := []\<rparr>"
          using Cons.prems by (cases a; cases b) simp
        then obtain a' b' where "t (a\<lparr>tick_pending := False\<rparr>) = Goes a'"
          "t' (b\<lparr>tick_pending := False\<rparr>) = Goes b'" "a'\<lparr>events := []\<rparr> = b'\<lparr>events := []\<rparr>"
          using sim by blast
        then show ?thesis
          using Select TickerRecv True f Cons.IH [of a' b'] by simp
      next
        case False
        then show ?thesis
          using Select TickerRecv f Cons.IH [OF Cons.prems] by simp
      qed
    qed
  qed
qed

lemma Run_loop_blind:
  "ctx_blind w \<Longrightarrow> forget_events (Run_loop (Timeout t w) xs st) = forget_events (Run_loop w xs st)"
proof -
  assume blind: "ctx_blind w"
  have "forget_events (select_loop (tick (Timeout t w)) xs st)
      = forget_events (select_loop (tick w) xs st)"
  proof (rule select_loop_blind)
    fix a b :: "'a state"
    assume "a\<lparr>events := []\<rparr> = b\<lparr>events := []\<rparr>"
    then show "\<exists>a' b'. tick (Timeout t w) a = Goes a' \<and> tick w b = Goes b'
           \<and> a'\<lparr>events := []\<rparr> = b'\<lparr>events := []\<rparr>"
      using tick_blind [OF blind] by blast
  next
    show "st\<lparr>events := []\<rparr> = st\<lparr>events := []\<rparr>"
      by simp
  qed
  then show ?thesis
    by (simp add: Run_loop_def)
qed

lemma tick_keeps:
  "tick w st = Goes st' \<Longrightarrow> cancelled st' = cancelled st \<and> done_chan st' = done_chan st"
  using tick_goes [of w st] by auto

text \<open>
  C7. With a positive timeout configured, the action runs under a derived context whose
  deadline is the configured timeout plus one second (in \<^verbatim>\<open>int64\<close> arithmetic); with a
  timeout that is not positive the context has no deadline. That context bounds only what
  it is handed to, the middlewares and the action, not the loop: a tick neither cancels
  the external context nor sends on the done channel, and for callbacks that do not look
  at their context the loop ends the same way under every timeout.
\<close>

theorem action_deadline:
  "(0 <s timeout w \<longrightarrow> ctx_timeout (runAction_ctx w) = Some (timeout w + Second))
   \<and> (\<not> 0 <s timeout w \<longrightarrow> ctx_timeout (runAction_ctx w) = None)
   \<and> (ActionCall c out \<in> set (runAction_events w s) \<longrightarrow> c = runAction_ctx w)
   \<and> (tick w st = Goes st' \<longrightarrow> cancelled st' = cancelled st \<and> done_chan st' = done_chan st)
   \<and> (ctx_blind w \<longrightarrow>
        forget_events (Run_loop (Timeout t w) xs st) = forget_events (Run_loop w xs st))"
proof -
  have "ActionCall c out \<in> set (runAction_events w s) \<longleftrightarrow> ActionCall c out \<in> set (tick_events w s)"
    by (rule in_runAction_events) simp
  then have "ActionCall c out \<in> set (runAction_events w s) \<longrightarrow> c = runAction_ctx w"
    using action_ctx [of c out w s] by blast
  moreover have "0 <s timeout w \<longrightarrow> ctx_timeout (runAction_ctx w) = Some (timeout w + Second)"
    by (simp add: runAction_ctx_def WithTimeout_def Background_def Let_def)
  moreover have "\<not> 0 <s timeout w \<longrightarrow> ctx_timeout (runAction_ctx w) = None"
    by (simp add: runAction_ctx_def WithTimeout_def Background_def Let_def)
  ultimately show ?thesis
    using tick_keeps [of w st st'] Run_loop_blind [of w t xs st] by blast
qed

lemma timed_worker_events:
  "runAction_events timed_worker () =
     [ActionCall \<lparr>ctx_traced = False, ctx_timeout = Some (6 * Second)\<rparr> (Returns None)]"
  by (simp add: timed_worker_def example_defs word_sless_alt)

theorem deadline_is_timeout_counterexample:
  "ActionCall \<lparr>ctx_traced = False, ctx_timeout = Some (6 * Second)\<rparr> (Returns None)
       \<in> set (runAction_events timed_worker ())
   \<and> timeout timed_worker = 5 * Second
   \<and> Some (6 * Second) \<noteq> Some (timeout timed_worker)"
  by (simp add: timed_worker_events) (simp add: timed_worker_def example_defs)

lemma ok_worker_blind: "ctx_blind ok_worker"
  by (simp add: ctx_blind_def ok_worker_def example_defs)

lemma ok_worker_tick:
  "tick ok_worker (fresh ())
     = Goes ((fresh ())\<lparr>events := [ActionCall Background (Returns None)]\<rparr>)"
  by (simp add: tick_def handle_error_def ok_worker_def example_defs)

lemma ok_worker_run:
  "forget_events (Run_loop ok_worker [TickerFires, Select TickerRecv, ExternalCancel, Select CtxDone]
     (fresh ()))
     = Returned ((fresh ())\<lparr>cancelled := True, done_chan := 1\<rparr>)"
  by (simp add: forget_events_def Run_loop_def tick_def handle_error_def send_done_def chan_send_def
      ok_worker_def example_defs)

theorem action_deadline_witness:
  "0 <s timeout timed_worker
   \<and> ctx_timeout (runAction_ctx timed_worker) = Some (5 * Second + Second)
   \<and> \<not> 0 <s timeout ok_worker
   \<and> ctx_timeout (runAction_ctx ok_worker) = None
   \<and> ActionCall \<lparr>ctx_traced = False, ctx_timeout = Some (6 * Second)\<rparr> (Returns None)
       \<in> set (runAction_events timed_worker ())
   \<and> \<lparr>ctx_traced = False, ctx_timeout = Some (6 * Second)\<rparr> = runAction_ctx timed_worker
   \<and> tick ok_worker (fresh ())
       = Goes ((fresh ())\<lparr>events := [ActionCall Background (Returns None)]\<rparr>)
   \<and> \<not> cancelled ((fresh ())\<lparr>events := [ActionCall Background (Returns None)]\<rparr>)
   \<and> done_chan ((fresh ())\<lparr>events := [ActionCall Background (Returns None)]\<rparr>) = 0
   \<and> ctx_blind ok_worker
   \<and> forget_events (Run_loop (Timeout (5 * Second) ok_worker)
         [TickerFires, Select TickerRecv, ExternalCancel, Select CtxDone] (fresh ()))
       = Returned ((fresh ())\<lparr>cancelled := True, done_chan := 1\<rparr>)"
proof -
  have h1: "0 <s timeout timed_worker"
    by (simp add: timed_worker_def example_defs word_sless_alt)
  have h2: "\<not> 0 <s timeout ok_worker"
    by (simp add: ok_worker_def example_defs)
  have h3: "ActionCall \<lparr>ctx_traced = False, ctx_timeout = Some (6 * Second)\<rparr> (Returns None)
       \<in> set (runAction_events timed_worker ())"
    by (simp add: timed_worker_events)
  have t: "timeout timed_worker = 5 * Second"
    by (simp add: timed_worker_def example_defs)
  have f: "cancelled (fresh ()) = False" "done_chan (fresh ()) = 0"
    by (simp_all add: fresh_def)
  show ?thesis
    using h1 h2 h3 t f ok_worker_blind ok_worker_tick ok_worker_run
      action_deadline [where w = timed_worker
        and c = "\<lparr>ctx_traced = False, ctx_timeout = Some (6 * Second)\<rparr>"
        and out = "Returns None" and s = "()" and st = "fresh ()"]
      action_deadline [where w = ok_worker and c = Background and out = "Returns None" and s = "()"
        and st = "fresh ()"
        and st' = "(fresh ())\<lparr>events := [ActionCall Background (Returns None)]\<rparr>"
        and t = "5 * Second"
        and xs = "[TickerFires, Select TickerRecv, ExternalCancel, Select CtxDone]"]
    by simp
qed

lemma send_done_not_waiting: "send_done st \<noteq> Waiting st1"
  by (simp add: send_done_def split: option.splits)

lemma select_loop_append:
  "select_loop t xs st = Waiting st1 \<Longrightarrow> select_loop t (xs @ ys) st = select_loop t ys st1"
  by (induction t xs st rule: select_loop.induct)
     (auto simp: send_done_not_waiting split: if_splits exec.splits)

lemma select_loop_waiting_done:
  "select_loop t xs st = Waiting st1 \<Longrightarrow> \<forall>a b. t a = Goes b \<longrightarrow> done_chan b = done_chan a
     \<Longrightarrow> done_chan st1 = done_chan st"
proof (induction t xs st rule: select_loop.induct)
  case (6 tick xs st)
  show ?case
  proof (cases "tick_pending st")
    case True
    then obtain x1 where x1: "tick (st\<lparr>tick_pending := False\<rparr>) = Goes x1"
      and rest: "select_loop tick xs x1 = Waiting st1"
      using "6.prems"(1) by (auto split: exec.splits)
    have "done_chan x1 = done_chan (st\<lparr>tick_pending := False\<rparr>)"
      using "6.prems"(2) x1 by blast
    moreover have "done_chan st1 = done_chan x1"
      using "6.IH"(1) [OF True x1 rest "6.prems"(2)] .
    ultimately show ?thesis by simp
  next
    case False
    then show ?thesis
      using 6 by simp
  qed
qed (auto simp: send_done_not_waiting split: if_splits)

lemma select_loop_returned_done:
  "select_loop t xs st = Returned st1 \<Longrightarrow> \<forall>a b. t a = Goes b \<longrightarrow> done_chan b = done_chan a
     \<Longrightarrow> done_chan st1 = Suc (done_chan st)"
proof (induction t xs st rule: select_loop.induct)
  case (6 tick xs st)
  show ?case
  proof (cases "tick_pending st")
    case True
    then obtain x1 where x1: "tick (st\<lparr>tick_pending := False\<rparr>) = Goes x1"
      and rest: "select_loop tick xs x1 = Returned st1"
      using "6.prems"(1) by (auto split: exec.splits)
    have "done_chan x1 = done_chan (st\<lparr>tick_pending := False\<rparr>)"
      using "6.prems"(2) x1 by blast
    moreover have "done_chan st1 = Suc (done_chan x1)"
      using "6.IH"(1) [OF True x1 rest "6.prems"(2)] .
    ultimately show ?thesis by simp
  next
    case False
    then show ?thesis
      using 6 by simp
  qed
qed (auto simp: send_done_def chan_send_def split: if_splits option.splits)

lemma select_loop_terminal:
  assumes keep: "\<forall>a b. t a = Goes b \<longrightarrow> done_chan b = done_chan a"
    and wait: "select_loop t xs st = Waiting st1" and fresh: "done_chan st = 0"
  shows "cancelled st1 \<Longrightarrow> select_loop t (xs @ Select CtxDone # ys) st = Returned (st1\<lparr>done_chan := 1\<rparr>)"
    and "0 < stopper st1 \<Longrightarrow> select_loop t (xs @ Select StopperRecv # ys) st
           = Returned (st1\<lparr>stopper := stopper st1 - 1, done_chan := 1\<rparr>)"
proof -
  have d: "done_chan st1 = 0"
    using select_loop_waiting_done [OF wait keep] fresh by simp
  show "cancelled st1 \<Longrightarrow> select_loop t (xs @ Select CtxDone # ys) st = Returned (st1\<lparr>done_chan := 1\<rparr>)"
    using d by (simp add: select_loop_append [OF wait] send_done_def chan_send_def)
  show "0 < stopper st1 \<Longrightarrow> select_loop t (xs @ Select StopperRecv # ys) st
           = Returned (st1\<lparr>stopper := stopper st1 - 1, done_chan := 1\<rparr>)"
    using d by (simp add: select_loop_append [OF wait] send_done_def chan_send_def)
qed

lemma handle_error_done: "handle_error h err a = Goes b \<Longrightarrow> done_chan b = done_chan a"
  by (auto simp: handle_error_def Let_def split: option.splits if_splits)

lemma tick_done: "tick w a = Goes b \<Longrightarrow> done_chan b = done_chan a"
  using tick_goes [of w a] by auto

lemma tick2_done: "tick2 w a = Goes b \<Longrightarrow> done_chan b = done_chan a"
  by (auto simp: tick2_def runAction2_def Let_def split: exec.splits option.splits prod.splits
      dest!: handle_error_done)

text \<open>
  C8. Once the \<^verbatim>\<open>select\<close> of the loop takes the case of the external cancellation or the
  case of the stopper, the loop runs no further tick, sends on the done channel exactly
  once and returns, whatever the schedule holds afterwards; this holds for both \<^verbatim>\<open>Run\<close>
  methods. A loop that has returned has sent on the done channel exactly once.
\<close>

theorem stop_is_terminal:
  "(Run_loop w xs st = Waiting st1 \<and> done_chan st = 0 \<longrightarrow>
       (cancelled st1 \<longrightarrow>
          Run_loop w (xs @ Select CtxDone # ys) st = Returned (st1\<lparr>done_chan := 1\<rparr>))
     \<and> (0 < stopper st1 \<longrightarrow>
          Run_loop w (xs @ Select StopperRecv # ys) st
            = Returned (st1\<lparr>stopper := stopper st1 - 1, done_chan := 1\<rparr>)))
   \<and> (Run_loop w xs st = Returned st1 \<and> done_chan st = 0 \<longrightarrow> done_chan st1 = 1)
   \<and> (Run2_loop w2 xs2 st2 = Waiting st3 \<and> done_chan st2 = 0 \<longrightarrow>
       (cancelled st3 \<longrightarrow>
          Run2_loop w2 (xs2 @ Select CtxDone # ys2) st2 = Returned (st3\<lparr>done_chan := 1\<rparr>))
     \<and> (0 < stopper st3 \<longrightarrow>
          Run2_loop w2 (xs2 @ Select StopperRecv # ys2) st2
            = Returned (st3\<lparr>stopper := stopper st3 - 1, done_chan := 1\<rparr>)))
   \<and> (Run2_loop w2 xs2 st2 = Returned st3 \<and> done_chan st2 = 0 \<longrightarrow> done_chan st3 = 1)"
proof -
  have k1: "\<forall>a b. tick w a = Goes b \<longrightarrow> done_chan b = done_chan a"
    using tick_done by blast
  have k2: "\<forall>a b. tick2 w2 a = Goes b \<longrightarrow> done_chan b = done_chan a"
    using tick2_done by blast
  show ?thesis
    unfolding Run_loop_def Run2_loop_def
    using select_loop_terminal [OF k1, of xs st st1 ys]
      select_loop_returned_done [OF _ k1, of xs st st1]
      select_loop_terminal [OF k2, of xs2 st2 st3 ys2]
      select_loop_returned_done [OF _ k2, of xs2 st2 st3]
    by simp
qed

text \<open>
  With the stop callback, a tick can also block for good: the action calls \<^verbatim>\<open>stop\<close>, which
  fills the stopper, and the handler then answers \<^verbatim>\<open>false\<close> to the error that \<^verbatim>\<open>try\<close>
  returns, so that \<^verbatim>\<open>Run\<close> sends on the full channel that only this goroutine reads.
\<close>

lemma second_stop_blocks:
  "Run2_loop deadlocking_worker2 [TickerFires, Select TickerRecv, Select StopperRecv] (fresh ())
     = Deadlocked"
  by (simp add: Run2_loop_def tick2_def runAction2_def runAction2_ctx_def handle_error_def
      deadlocking_worker2_def try_fn_def recover_def Sprintf_v_def chan_send_def fresh_def
      Second_def word_sless_alt)

theorem tick_after_cancellation_counterexample:
  "Run_loop ok_worker [TickerFires, ExternalCancel] (fresh ())
     = Waiting ((fresh ())\<lparr>cancelled := True, tick_pending := True\<rparr>)
   \<and> Run_loop ok_worker [TickerFires, ExternalCancel, Select TickerRecv] (fresh ())
     = Waiting ((fresh ())\<lparr>cancelled := True, events := [ActionCall Background (Returns None)]\<rparr>)"
  by (simp add: Run_loop_def tick_def handle_error_def ok_worker_def example_defs)

lemma ok_worker_waits:
  "Run_loop ok_worker [TickerFires, Select TickerRecv, ExternalCancel] (fresh ())
     = Waiting ((fresh ())\<lparr>cancelled := True, events := [ActionCall Background (Returns None)]\<rparr>)"
  by (simp add: Run_loop_def tick_def handle_error_def ok_worker_def example_defs)

lemma stopping_worker2_waits:
  "Run2_loop stopping_worker2 [TickerFires, Select TickerRecv] (fresh ())
     = Waiting ((fresh ())\<lparr>stopper := 1,
         events := [ActionCall (WithTimeout Background Second) (Returns None)]\<rparr>)"
  by (simp add: Run2_loop_def tick2_def runAction2_def runAction2_ctx_def handle_error_def
      stopping_worker2_def try_fn_def chan_send_def word_sless_alt example_defs)

theorem stop_is_terminal_witness:
  "Run_loop ok_worker
      ([TickerFires, Select TickerRecv, ExternalCancel] @ Select CtxDone # [TickerFires, Select TickerRecv])
      (fresh ())
     = Returned ((fresh ())\<lparr>cancelled := True, done_chan := 1,
         events := [ActionCall Background (Returns None)]\<rparr>)
   \<and> Run2_loop stopping_worker2
      ([TickerFires, Select TickerRecv] @ Select StopperRecv # [TickerFires, Select TickerRecv])
      (fresh ())
     = Returned ((fresh ())\<lparr>stopper := 0, done_chan := 1,
         events := [ActionCall (WithTimeout Background Second) (Returns None)]\<rparr>)"
proof -
  have d: "done_chan (fresh ()) = 0"
    by (simp add: fresh_def)
  show ?thesis
    using stop_is_terminal [where w = ok_worker
        and xs = "[TickerFires, Select TickerRecv, ExternalCancel]" and st = "fresh ()"
        and ?st1.0 = "(fresh ())\<lparr>cancelled := True, events := [ActionCall Background (Returns None)]\<rparr>"
        and ys = "[TickerFires, Select TickerRecv]"
        and ?w2.0 = stopping_worker2 and ?xs2.0 = "[TickerFires, Select TickerRecv]"
        and ?st2.0 = "fresh ()"
        and ?st3.0 = "(fresh ())\<lparr>stopper := 1, events := [ActionCall (WithTimeout Background Second) (Returns None)]\<rparr>"
        and ?ys2.0 = "[TickerFires, Select TickerRecv]"]
      ok_worker_waits stopping_worker2_waits d
    by (simp add: fresh_def)
qed

lemmas lock_defs =
  token_A_def token_B_def token_C_def locker_A_def empty_store_def store_held_by_A_def
  store_held_by_B_def store_down_def
  NewLocker_def TryLock_def Unlock_def IsLocked_def SetNX_def Get_def Eval_def
  redis_get_def redis_del_def redis_expire_def unlock_script_def renew_script_def
  renew_tick_def Second_def redis_Nil_def

lemma sdiv_3_bounds:
  "(0 \<le> k \<longrightarrow> 0 \<le> k sdiv 3 \<and> k sdiv 3 \<le> k) \<and> (k < 0 \<longrightarrow> k \<le> k sdiv 3 \<and> k sdiv 3 \<le> 0)"
  for k :: int
  by (auto simp: signed_divide_int_def sgn_if abs_if)

lemma sint_duration_div_3: "sint (duration_div d 3) = sint d sdiv 3"
proof -
  have lo: "- (2 ^ 63) \<le> sint d" and hi: "sint d < 2 ^ 63"
    using sint_ge [of d] sint_lt [of d] by simp_all
  have "- (2 ^ 63) \<le> sint d sdiv 3" "sint d sdiv 3 < 2 ^ 63"
    using sdiv_3_bounds [of "sint d"] lo hi by (cases "0 \<le> sint d"; simp)+
  then have "signed_take_bit 63 (sint d sdiv 3) = sint d sdiv 3"
    by (rule signed_take_bit_int_eq_self)
  then show ?thesis
    by (simp add: duration_div_def signed_of_int)
qed

text \<open>
  C4. For a call of \<^verbatim>\<open>TryLock\<close> in which the store call succeeds: it returns \<^verbatim>\<open>ErrLocked\<close>
  if and only if the key already exists in the store, whatever value it holds, and it then
  changes nothing; otherwise it succeeds, creates the record key = token with expiry ttl,
  and starts a renewal loop under a fresh context.
\<close>

theorem acquire_contract:
  "unreachable st = None \<Longrightarrow> TryLock l st = (err, l', st') \<Longrightarrow>
     (err = Some ErrLocked \<longleftrightarrow> kv st (lockKey l) \<noteq> None)
   \<and> (err = None \<longleftrightarrow> kv st (lockKey l) = None)
   \<and> (err = Some ErrLocked \<longrightarrow> st' = st \<and> l' = l)
   \<and> (err = None \<longrightarrow>
        kv st' = (kv st)(lockKey l \<mapsto> (lockValue l, sint (lockTTL l)))
      \<and> renewals_started l' = Suc (renewals_started l) \<and> cancel_set l' \<and> \<not> ctx_cancelled l')"
  by (auto simp: TryLock_def SetNX_def split: option.splits)

theorem own_token_is_contention_counterexample:
  "snd (snd (TryLock locker_A empty_store)) = store_held_by_A
   \<and> unreachable store_held_by_A = None
   \<and> redis_get (kv store_held_by_A) (lockKey locker_A) = Some (lockValue locker_A)
   \<and> fst (TryLock locker_A store_held_by_A) = Some ErrLocked"
  by (simp add: lock_defs)

theorem acquire_contract_witness:
  "unreachable empty_store = None
   \<and> fst (TryLock locker_A empty_store) = None
   \<and> kv (snd (snd (TryLock locker_A empty_store)))
       = (kv empty_store)(lockKey locker_A \<mapsto> (lockValue locker_A, sint (lockTTL locker_A)))
   \<and> renewals_started (fst (snd (TryLock locker_A empty_store))) = 1
   \<and> unreachable store_held_by_B = None
   \<and> fst (TryLock locker_A store_held_by_B) = Some ErrLocked
   \<and> snd (snd (TryLock locker_A store_held_by_B)) = store_held_by_B"
proof -
  have r1: "unreachable empty_store = None" and r2: "unreachable store_held_by_B = None"
    by (simp_all add: lock_defs)
  have e1: "fst (TryLock locker_A empty_store) = None"
    and e2: "fst (TryLock locker_A store_held_by_B) = Some ErrLocked"
    and s0: "renewals_started locker_A = 0"
    by (simp_all add: lock_defs)
  obtain l1 st1 where t1: "TryLock locker_A empty_store = (None, l1, st1)"
    using e1 by (cases "TryLock locker_A empty_store") simp
  obtain l2 st2 where t2: "TryLock locker_A store_held_by_B = (Some ErrLocked, l2, st2)"
    using e2 by (cases "TryLock locker_A store_held_by_B") simp
  show ?thesis
    using acquire_contract [OF r1 t1] acquire_contract [OF r2 t2] r1 r2 t1 t2 s0 by simp
qed

text \<open>
  C5. For every call of \<^verbatim>\<open>Unlock\<close>: the store changes only if the key holds this instance's
  token; if the key holds another value (or is absent), the store is left as it was; when
  the store is reachable and the key holds the token, the key is deleted; no other key is
  touched.
\<close>

theorem release_contract:
  "Unlock l st = (err, l', st') \<Longrightarrow>
     (kv st' \<noteq> kv st \<longrightarrow> redis_get (kv st) (lockKey l) = Some (lockValue l))
   \<and> (redis_get (kv st) (lockKey l) \<noteq> Some (lockValue l) \<longrightarrow> st' = st)
   \<and> (unreachable st = None \<and> redis_get (kv st) (lockKey l) = Some (lockValue l) \<longrightarrow>
        kv st' = (kv st)(lockKey l := None))
   \<and> (\<forall>k. k \<noteq> lockKey l \<longrightarrow> kv st' k = kv st k)"
  by (auto simp: Unlock_def Eval_def unlock_script_def redis_del_def redis_get_def Let_def
           split: option.splits if_splits prod.splits)

theorem release_contract_witness:
  "redis_get (kv store_held_by_B) (lockKey locker_A) \<noteq> Some (lockValue locker_A)
   \<and> snd (snd (Unlock locker_A store_held_by_B)) = store_held_by_B
   \<and> unreachable store_held_by_A = None
   \<and> redis_get (kv store_held_by_A) (lockKey locker_A) = Some (lockValue locker_A)
   \<and> kv (snd (snd (Unlock locker_A store_held_by_A))) = (kv store_held_by_A)(lockKey locker_A := None)
   \<and> kv (snd (snd (Unlock locker_A store_held_by_A))) ''other key'' = kv store_held_by_A ''other key''"
proof -
  have h1: "redis_get (kv store_held_by_B) (lockKey locker_A) \<noteq> Some (lockValue locker_A)"
    and h2: "unreachable store_held_by_A = None"
    and h3: "redis_get (kv store_held_by_A) (lockKey locker_A) = Some (lockValue locker_A)"
    and h4: "''other key'' \<noteq> lockKey locker_A"
    by (simp_all add: lock_defs)
  obtain e1 l1 st1 where u1: "Unlock locker_A store_held_by_B = (e1, l1, st1)"
    by (cases "Unlock locker_A store_held_by_B")
  obtain e2 l2 st2 where u2: "Unlock locker_A store_held_by_A = (e2, l2, st2)"
    by (cases "Unlock locker_A store_held_by_A")
  show ?thesis
    using release_contract [OF u1] release_contract [OF u2] h1 h2 h3 h4 u1 u2 by simp
qed

text \<open>
  C9. For every call of \<^verbatim>\<open>IsLocked\<close>: if the store read returns an error, the answer is
  false; the answer is true exactly when the read succeeds with this instance's token.
\<close>

theorem is_locked_contract:
  "(Get st (lockKey l) = Inl e \<longrightarrow> \<not> IsLocked l st)
   \<and> (IsLocked l st \<longleftrightarrow> Get st (lockKey l) = Inr (lockValue l))
   \<and> (IsLocked l st \<longrightarrow> unreachable st = None \<and> redis_get (kv st) (lockKey l) = Some (lockValue l))"
  by (auto simp: IsLocked_def Get_def redis_get_def split: sum.splits option.splits)

theorem is_locked_contract_witness:
  "Get store_down (lockKey locker_A) = Inl (ErrNew ''connection refused'')
   \<and> \<not> IsLocked locker_A store_down
   \<and> IsLocked locker_A store_held_by_A
   \<and> Get store_held_by_A (lockKey locker_A) = Inr (lockValue locker_A)
   \<and> \<not> IsLocked locker_A store_held_by_B
   \<and> \<not> IsLocked locker_A empty_store"
proof -
  have g1: "Get store_down (lockKey locker_A) = Inl (ErrNew ''connection refused'')"
    and g2: "Get store_held_by_A (lockKey locker_A) = Inr (lockValue locker_A)"
    and g3: "Get store_held_by_B (lockKey locker_A) \<noteq> Inr (lockValue locker_A)"
    and g4: "Get empty_store (lockKey locker_A) \<noteq> Inr (lockValue locker_A)"
    by (simp_all add: lock_defs)
  show ?thesis
    using is_locked_contract [of store_down locker_A "ErrNew ''connection refused''"]
      is_locked_contract [of store_held_by_A locker_A "ErrNew ''connection refused''"]
      is_locked_contract [of store_held_by_B locker_A "ErrNew ''connection refused''"]
      is_locked_contract [of empty_store locker_A "ErrNew ''connection refused''"]
      g1 g2 g3 g4
    by simp
qed


lemma renew_tick_cases:
  "renew_tick l st =
     (if unreachable st = None \<and> redis_get (kv st) (lockKey l) = Some (lockValue l)
      then (True, l, st\<lparr>kv := snd (redis_expire (kv st) (lockKey l) (ttl_seconds (lockTTL l)))\<rparr>)
      else (False, l\<lparr>ctx_cancelled := True\<rparr>, st))"
  by (auto simp: renew_tick_def Eval_def renew_script_def redis_expire_def redis_get_def
           split: option.splits prod.splits)

lemma renew_loop_append:
  "renew_loop xs rs = RenewWaiting rs1 \<Longrightarrow> renew_loop (xs @ ys) rs = renew_loop ys rs1"
  by (induction xs rs rule: renew_loop.induct)
     (auto simp: Let_def split: if_splits prod.splits)

lemma renew_loop_ticker:
  "renew_loop xs rs = RenewWaiting rs1 \<or> renew_loop xs rs = RenewReturned rs1
     \<Longrightarrow> ticker rs1 = ticker rs"
  by (induction xs rs rule: renew_loop.induct)
     (auto simp: Let_def split: if_splits prod.splits)

text \<open>
  What holds of the renewal loop for every lock: it waits on a ticker of interval ttl/3
  (truncated), or panics when that is not positive; a tick changes the store only if the key
  holds this instance's token; a tick on which the store cannot be reached or the key does
  not hold the token cancels the context and ends the loop, whatever the schedule holds
  afterwards. When the key holds the token and the ttl has at least one whole second, the
  tick keeps the value, resets the expiry to the whole seconds of the ttl, and the loop
  goes on.
\<close>

lemma renewLock_interval:
  "renewLock (NewLocker n ttl tok) xs st = RenewWaiting rs
     \<or> renewLock (NewLocker n ttl tok) xs st = RenewReturned rs
   \<Longrightarrow> ticker rs = duration_div ttl 3 \<and> sint (ticker rs) = sint ttl sdiv 3 \<and> 0 < sint ttl sdiv 3"
proof -
  assume r: "renewLock (NewLocker n ttl tok) xs st = RenewWaiting rs
     \<or> renewLock (NewLocker n ttl tok) xs st = RenewReturned rs"
  have i: "renewInterval (NewLocker n ttl tok) = duration_div ttl 3"
    by (simp add: NewLocker_def)
  have pos: "0 <s duration_div ttl 3"
    using r i by (auto simp: renewLock_def split: if_splits)
  have "ticker rs = duration_div ttl 3"
    using r i pos renew_loop_ticker [of xs _ rs] by (auto simp: renewLock_def)
  then show ?thesis
    using pos sint_duration_div_3 [of ttl] by (simp add: word_sless_alt)
qed

lemma renewLock_panics:
  "\<not> 0 < sint ttl sdiv 3 \<Longrightarrow> renewLock (NewLocker n ttl tok) xs st = RenewPanicked"
  using sint_duration_div_3 [of ttl]
  by (simp add: renewLock_def NewLocker_def word_sless_alt)

lemma renew_tick_only_own:
  "renew_tick l st = (goes_on, l', st') \<Longrightarrow>
     (st' \<noteq> st \<longrightarrow> unreachable st = None \<and> redis_get (kv st) (lockKey l) = Some (lockValue l))
   \<and> (unreachable st \<noteq> None \<or> redis_get (kv st) (lockKey l) \<noteq> Some (lockValue l) \<longrightarrow>
        \<not> goes_on \<and> ctx_cancelled l' \<and> st' = st)"
  by (auto simp: renew_tick_cases split: if_splits)

lemma renew_tick_extends:
  "unreachable st = None \<Longrightarrow> redis_get (kv st) (lockKey l) = Some (lockValue l)
     \<Longrightarrow> 0 < ttl_seconds (lockTTL l)
     \<Longrightarrow> renew_tick l st
          = (True, l,
             st\<lparr>kv := (kv st)(lockKey l \<mapsto> (lockValue l, ttl_seconds (lockTTL l) * 1000000000))\<rparr>)"
  by (auto simp: renew_tick_cases redis_expire_def redis_get_def split: option.splits)

lemma renew_tick_deletes:
  "unreachable st = None \<Longrightarrow> redis_get (kv st) (lockKey l) = Some (lockValue l)
     \<Longrightarrow> ttl_seconds (lockTTL l) \<le> 0
     \<Longrightarrow> renew_tick l st = (True, l, st\<lparr>kv := (kv st)(lockKey l := None)\<rparr>)"
  by (auto simp: renew_tick_cases redis_expire_def redis_get_def split: option.splits)

lemma renew_loop_ends:
  assumes "renew_loop xs rs = RenewWaiting rs1"
    and "unreachable (the_store rs1) \<noteq> None
       \<or> redis_get (kv (the_store rs1)) (lockKey (the_locker rs1)) \<noteq> Some (lockValue (the_locker rs1))"
  shows "renew_loop (xs @ TakeTick # ys) rs
           = RenewReturned (rs1\<lparr>the_locker := (the_locker rs1)\<lparr>ctx_cancelled := True\<rparr>,
                                renew_calls := Suc (renew_calls rs1)\<rparr>)"
proof -
  have "renew_tick (the_locker rs1) (the_store rs1)
          = (False, (the_locker rs1)\<lparr>ctx_cancelled := True\<rparr>, the_store rs1)"
    using assms(2) by (auto simp: renew_tick_cases)
  then show ?thesis
    by (simp add: renew_loop_append [OF assms(1)])
qed

lemmas float_defs =
  ttl_seconds_def Seconds_def int_of_float64_def float64_add_def float64_div_def
  float64_of_int_def float64_nearest_def round_half_even_def ratio_shift_def
  bit_length.simps signed_divide_int_def signed_modulo_int_def Let_def

lemma seconds_of_900ms: "ttl_seconds 900000000 = 0"
  by (simp add: float_defs)

lemma seconds_of_1500ms: "ttl_seconds 1500000000 = 1"
  by (simp add: float_defs)

lemma seconds_of_30s: "ttl_seconds 30000000000 = 30"
  by (simp add: float_defs)

text \<open>Beyond some 97 days the sum in \<^verbatim>\<open>Seconds\<close> can round up to the next whole second.\<close>

lemma seconds_round_up: "ttl_seconds 100000000999999999 = 100000001"
  by (simp add: float_defs)

lemma locker_C_renews:
  "renew_tick locker_C store_held_by_C
     = (True, locker_C,
        \<lparr>kv = [''worker:lock:job'' \<mapsto> (token_C, 1000000000)], unreachable = None\<rparr>)"
  by (simp add: locker_C_def store_held_by_C_def lock_defs seconds_of_1500ms)

text \<open>
  C6. The renewal loop waits on a ticker of interval ttl/3, and each tick should extend the
  TTL when, and only when, the key still holds this instance's token. For a TTL under one
  second it does not extend it: \<^verbatim>\<open>int(l.lockTTL.Seconds())\<close> is 0, the script calls
  \<^verbatim>\<open>expire\<close> with 0, and the record of the owner is deleted. With a TTL of 900ms: the lock
  is acquired, the ticker has the interval 300ms, the first tick deletes the record and
  reports success, so that the loop goes on; the second tick finds the key gone, cancels
  the context and ends the loop.
\<close>

theorem renewal_deletes_subsecond_lock:
  "TryLock locker_D empty_store = (None, locker_D_held, store_held_by_D)
   \<and> ttl_seconds (lockTTL locker_D_held) = 0
   \<and> renewLock locker_D_held [TakeTick] store_held_by_D
       = RenewWaiting \<lparr>the_locker = locker_D_held, the_store = empty_store, renew_calls = 1,
                       ticker = 300000000\<rparr>
   \<and> renewLock locker_D_held [TakeTick, TakeTick] store_held_by_D
       = RenewReturned \<lparr>the_locker = locker_D_held\<lparr>ctx_cancelled := True\<rparr>,
                        the_store = empty_store, renew_calls = 2, ticker = 300000000\<rparr>"
  by (simp add: locker_D_def locker_D_held_def store_held_by_D_def token_D_def lock_defs
      renewLock_def duration_div_def signed_divide_int_def word_sless_alt seconds_of_900ms)

text \<open>
  C10. The middleware of the watcher returns \<^verbatim>\<open>ErrLocked\<close> whenever \<^verbatim>\<open>IsLocked\<close> is false,
  and starts no monitor then; when ownership is confirmed it returns nil and starts the
  monitor. A tick guarded by it as first before-middleware is skipped when the lock is not
  owned: nothing else runs and nothing is logged.
\<close>

theorem watcher_contract:
  "(redis_get (kv st) (lockKey l) \<noteq> Some (lockValue l) \<longrightarrow> \<not> IsLocked l st)
   \<and> (\<not> IsLocked l st \<longrightarrow> Middleware_of c l st = (Some ErrLocked, c))
   \<and> (IsLocked l st \<longrightarrow>
        Middleware_of c l st
          = (None, c\<lparr>crw_cancel_set := True, monitors_started := Suc (monitors_started c)\<rparr>))
   \<and> (\<not> IsLocked (w_locker s) (w_store s) \<and> beforeMiddlewares w = WatcherMiddleware # ms \<longrightarrow>
        runAction w (fresh s)
          = (None, (fresh s)\<lparr>events := [BeforeCall 0 (Returns (Some ErrLocked))]\<rparr>))"
proof -
  have "redis_get (kv st) (lockKey l) \<noteq> Some (lockValue l) \<longrightarrow> \<not> IsLocked l st"
    by (auto simp: IsLocked_def Get_def redis_get_def split: sum.splits option.splits)
  then show ?thesis
    by (simp add: Middleware_of_def WatcherMiddleware_def runAction_def wrapped_action_def
        deferred_after_def TryContext_def fresh_def run_before_locked Let_def)
qed


lemma guarded_before: "beforeMiddlewares guarded_worker = WatcherMiddleware # []"
  by (simp add: guarded_worker_def example_defs)

theorem watcher_contract_witness:
  "redis_get (kv store_held_by_B) (lockKey locker_A) \<noteq> Some (lockValue locker_A)
   \<and> \<not> IsLocked locker_A store_held_by_B
   \<and> Middleware_of NewCancelRunningWorker locker_A store_held_by_B
       = (Some ErrLocked, NewCancelRunningWorker)
   \<and> IsLocked locker_A store_held_by_A
   \<and> Middleware_of NewCancelRunningWorker locker_A store_held_by_A
       = (None, \<lparr>crw_cancel_set = True, monitors_started = 1\<rparr>)
   \<and> runAction guarded_worker (fresh (world_of store_held_by_B))
       = (None, (fresh (world_of store_held_by_B))\<lparr>events := [BeforeCall 0 (Returns (Some ErrLocked))]\<rparr>)"
proof -
  have h0: "redis_get (kv store_held_by_B) (lockKey locker_A) \<noteq> Some (lockValue locker_A)"
    by (simp add: lock_defs)
  have h2: "IsLocked locker_A store_held_by_A"
    by (simp add: lock_defs)
  have h3: "w_locker (world_of store_held_by_B) = locker_A"
    "w_store (world_of store_held_by_B) = store_held_by_B"
    by (simp_all add: world_of_def)
  show ?thesis
    using watcher_contract [where l = locker_A and st = store_held_by_B and c = NewCancelRunningWorker
        and s = "world_of store_held_by_B" and w = guarded_worker and ms = "[]"]
      watcher_contract [where l = locker_A and st = store_held_by_A and c = NewCancelRunningWorker
        and s = "world_of store_held_by_B" and w = guarded_worker and ms = "[]"]
      h0 h2 h3 guarded_before
    by (simp add: NewCancelRunningWorker_def)
qed

end
